theory Spec2Isabelle
  imports Main
begin

section \<open>Promises and the control channel\<close>

text \<open>
  The program is asynchronous JavaScript. An awaited promise has three possible fates:
  it resolves with a value, it rejects with an error, or it never settles. A function
  declared \<^verbatim>\<open>async\<close> is modelled by the fate of the promise it returns.
\<close>

datatype 'a promise = Resolved 'a | Rejected string | Pending

text \<open>\<^verbatim>\<open>await p; rest\<close>: the rest runs only when \<open>p\<close> resolves.\<close>

fun await :: "'a promise \<Rightarrow> ('a \<Rightarrow> 'b promise) \<Rightarrow> 'b promise" where
  "await (Resolved x) k = k x"
| "await (Rejected e) k = Rejected e"
| "await Pending k = Pending"

text \<open>\<^verbatim>\<open>p.catch(() => {})\<close> and \<^verbatim>\<open>try { await p } catch (e) {}\<close>: a rejection
  is turned into a normal completion; a promise that never settles stays so.\<close>

fun catch_ignore :: "unit promise \<Rightarrow> unit promise" where
  "catch_ignore (Resolved x) = Resolved ()"
| "catch_ignore (Rejected e) = Resolved ()"
| "catch_ignore Pending = Pending"

text \<open>
  Gains are the JavaScript numbers \<^verbatim>\<open>0.0\<close> and \<^verbatim>\<open>0.35\<close>; the configuration allows
  \<^verbatim>\<open>0..2\<close>. They are kept in hundredths, and \<open>number_text\<close> is what the template
  literal \<^verbatim>\<open>${vol}\<close> prints for such a number: no trailing zeros, no decimal point for
  a whole number.
\<close>

type_synonym gain = nat

definition MUSIC_GAIN_ACTIVE :: gain where
  "MUSIC_GAIN_ACTIVE = 35"

definition ZMQ_ENDPOINT :: string where
  "ZMQ_ENDPOINT = ''tcp://127.0.0.1:5555''"

definition digit_char :: "nat \<Rightarrow> char" where
  "digit_char d = char_of (48 + d)"

fun nat_text :: "nat \<Rightarrow> string" where
  "nat_text n = (if n < 10 then [digit_char n] else nat_text (n div 10) @ [digit_char (n mod 10)])"

definition number_text :: "gain \<Rightarrow> string" where
  "number_text v =
     (let whole = v div 100; frac = v mod 100 in
      if frac = 0 then nat_text whole
      else if frac mod 10 = 0 then nat_text whole @ ''.'' @ [digit_char (frac div 10)]
      else nat_text whole @ ''.'' @ [digit_char (frac div 10), digit_char (frac mod 10)])"

text \<open>
  The request socket of the messaging library is outside the repository. What it does
  with one request is an input of the model: the send resolves, fails (thrown or
  rejected: both end in the same \<^verbatim>\<open>catch\<close>) or never settles, and so does the
  receive. The socket records the calls made on it.
\<close>

datatype send_result = SendOk | SendFails string | SendPending
datatype recv_result = Reply string | RecvFails string | NoReply

record transport =
  on_send :: send_result
  on_receive :: recv_result

datatype socket_call = SendCall string | ReceiveCall

datatype socket = RequestSocket (connected_to: "string option")

definition zmq_send :: "transport \<Rightarrow> unit promise" where
  "zmq_send tr = (case on_send tr of SendOk \<Rightarrow> Resolved () | SendFails e \<Rightarrow> Rejected e | SendPending \<Rightarrow> Pending)"

definition zmq_receive :: "transport \<Rightarrow> string promise" where
  "zmq_receive tr = (case on_receive tr of Reply r \<Rightarrow> Resolved r | RecvFails e \<Rightarrow> Rejected e | NoReply \<Rightarrow> Pending)"

text \<open>The calls made on the socket: the receive is reached only after the send resolved.\<close>

definition socket_calls :: "string \<Rightarrow> transport \<Rightarrow> socket_call list" where
  "socket_calls cmd tr = (case on_send tr of SendOk \<Rightarrow> [SendCall cmd, ReceiveCall] | _ \<Rightarrow> [SendCall cmd])"

text \<open>
  \<^verbatim>\<open>async function setMusicVolume(vol)\<close>: the fate of the returned promise and the
  calls made on the socket.
\<close>

definition setMusicVolume :: "socket option \<Rightarrow> gain \<Rightarrow> transport \<Rightarrow> unit promise \<times> socket_call list" where
  "setMusicVolume zmqSock vol tr =
     (case zmqSock of
        None \<Rightarrow> (Resolved (), [])
      | Some sock \<Rightarrow>
          (let cmd = ''volume@mus volume '' @ number_text vol in
           (catch_ignore
              (await (zmq_send tr)
                 (\<lambda>_. catch_ignore (await (zmq_receive tr) (\<lambda>reply. Resolved ())))),
            socket_calls cmd tr)))"

text \<open>
  The connect call of the messaging library is outside the repository. It parses the
  endpoint and starts connecting in the background: it throws for an endpoint it cannot
  parse and returns at once otherwise, whether or not a peer is listening there.
\<close>

datatype peer = Listening | NoPeer

definition valid_endpoint :: "string \<Rightarrow> bool" where
  "valid_endpoint e = list_ex (\<lambda>t. take (length t) e = t) [''tcp://'', ''ipc://'', ''inproc://'']"

definition zmq_connect :: "string \<Rightarrow> peer \<Rightarrow> unit promise" where
  "zmq_connect endpoint p = (if valid_endpoint endpoint then Resolved () else Rejected ''Invalid argument'')"

text \<open>
  \<^verbatim>\<open>async function initZmq()\<close>: the socket is created and assigned to \<open>zmqSock\<close>
  first, then the connect call is awaited with no handler around it. The connect call is
  a parameter, so that what \<open>initZmq\<close> does with its outcome holds for any library;
  \<open>zmq_connect\<close> is the one the program runs with.
\<close>

definition initZmq :: "(string \<Rightarrow> peer \<Rightarrow> unit promise) \<Rightarrow> peer \<Rightarrow> unit promise \<times> socket option" where
  "initZmq connect p =
     (await (connect ZMQ_ENDPOINT p) (\<lambda>_. Resolved ()),
      Some (RequestSocket (case connect ZMQ_ENDPOINT p of Resolved _ \<Rightarrow> Some ZMQ_ENDPOINT | _ \<Rightarrow> None)))"

text \<open>
  The start of \<^verbatim>\<open>main\<close>, up to the loop, after the pipeline was started and the
  warm-up sleep has passed: \<^verbatim>\<open>await initZmq(); await setMusicVolume(0.0)\<close>.
  The loop itself never returns, so the promise of \<^verbatim>\<open>main\<close> stays pending once the
  loop is entered. The handler on \<^verbatim>\<open>main().catch\<close> ends the process with exit code 1.
\<close>

definition main_startup :: "(string \<Rightarrow> peer \<Rightarrow> unit promise) \<Rightarrow> peer \<Rightarrow> transport \<Rightarrow> unit promise" where
  "main_startup connect p tr =
     await (fst (initZmq connect p))
       (\<lambda>_. await (fst (setMusicVolume (snd (initZmq connect p)) 0 tr)) (\<lambda>_. Pending))"

definition exit_code :: "unit promise \<Rightarrow> nat option" where
  "exit_code p = (case p of Rejected e \<Rightarrow> Some 1 | _ \<Rightarrow> None)"

section \<open>The activity probe\<close>

text \<open>
  \<^verbatim>\<open>isWebcamInUse\<close> spawns the query and settles its promise from the events of the
  child process: \<^verbatim>\<open>data\<close> chunks on standard output are appended to \<open>out\<close>,
  \<^verbatim>\<open>close\<close> resolves with the test on \<open>out\<close>, \<^verbatim>\<open>error\<close> resolves with
  \<^verbatim>\<open>false\<close>. A promise settles once: events after the first settling one change
  nothing. The spawn call and the attaching of the listeners run inside the executor of
  the promise, with no handler around them: when the spawn call throws, or returns a
  child without a standard output stream so that \<^verbatim>\<open>pwsh.stdout.on\<close> throws, the
  promise rejects and no listener is attached. The outcome of the spawn call and the
  events of the child are the input; the output is taken as ASCII text.
\<close>

datatype probe_event = StdoutData string | ProbeClose | ProbeError string

datatype spawn_result = SpawnThrows string | Spawned (stdout_piped: bool) "probe_event list"

definition is_space :: "char \<Rightarrow> bool" where
  "is_space c = (c \<in> set [CHR '' '', CHR 0x09, CHR 0x0A, CHR 0x0B, CHR 0x0C, CHR 0x0D])"

definition trim :: "string \<Rightarrow> string" where
  "trim s = rev (dropWhile is_space (rev (dropWhile is_space s)))"

definition lower_char :: "char \<Rightarrow> char" where
  "lower_char c =
     (if of_char (CHR ''A'') \<le> (of_char c :: nat) \<and> (of_char c :: nat) \<le> of_char (CHR ''Z'')
      then char_of ((of_char c :: nat) + 32) else c)"

definition toLowerCase :: "string \<Rightarrow> string" where
  "toLowerCase s = map lower_char s"

fun js_includes :: "string \<Rightarrow> string \<Rightarrow> bool" where
  "js_includes [] needle = (needle = [])"
| "js_includes (c # cs) needle = (take (length needle) (c # cs) = needle \<or> js_includes cs needle)"

fun probe_events :: "string \<Rightarrow> probe_event list \<Rightarrow> bool promise" where
  "probe_events out [] = Pending"
| "probe_events out (StdoutData d # evs) = probe_events (out @ d) evs"
| "probe_events out (ProbeClose # evs) = Resolved (js_includes (toLowerCase (trim out)) ''true'')"
| "probe_events out (ProbeError e # evs) = Resolved False"

definition isWebcamInUse :: "spawn_result \<Rightarrow> bool promise" where
  "isWebcamInUse sp =
     (case sp of
        SpawnThrows e \<Rightarrow> Rejected e
      | Spawned has_out evs \<Rightarrow>
          if has_out then probe_events [] evs
          else Rejected ''TypeError: Cannot read properties of null'')"

fun ends_process :: "probe_event \<Rightarrow> bool" where
  "ends_process (StdoutData d) = False"
| "ends_process ProbeClose = True"
| "ends_process (ProbeError e) = True"

section \<open>The pipeline supervisor\<close>

text \<open>
  The globals \<open>procFfmpeg\<close>, \<open>procFfplay\<close> and \<open>stopping\<close>, and the calls made on the
  child processes and their streams, in order. Each call is logged with the value the
  \<open>stopping\<close> flag had when it was made. Whether a call throws, and whether a signal is
  delivered, is decided by the operating system: an input.
\<close>

datatype proc_id = Ffmpeg | Ffplay

datatype os_call = Spawn proc_id | PipeStreams | Unpipe | EndStdin | DestroyStdin
  | Kill proc_id | ConsoleLog string

record effect =
  call :: os_call
  stopping_then :: bool

record child =
  has_stdout :: bool
  has_stdin :: bool
  killed :: bool

record supervisor =
  procFfmpeg :: "child option"
  procFfplay :: "child option"
  stopping :: bool
  effects :: "effect list"

datatype kill_result = Delivered | NotDelivered | KillThrows

record os =
  kill_res :: "proc_id \<Rightarrow> kill_result"
  stream_throws :: "os_call \<Rightarrow> bool"

text \<open>A statement either returns or throws; the state it reached is kept in both cases.\<close>

datatype 'a outcome = Returned 'a | Thrown 'a

fun try_catch :: "'a outcome \<Rightarrow> 'a outcome" where
  "try_catch (Returned s) = Returned s"
| "try_catch (Thrown s) = Returned s"

fun in_order :: "('a \<Rightarrow> 'a outcome) list \<Rightarrow> 'a \<Rightarrow> 'a outcome" where
  "in_order [] s = Returned s"
| "in_order (f # fs) s = (case f s of Returned s' \<Rightarrow> in_order fs s' | Thrown s' \<Rightarrow> Thrown s')"

fun state_of :: "'a outcome \<Rightarrow> 'a" where
  "state_of (Returned s) = s"
| "state_of (Thrown s) = s"

definition perform :: "os_call \<Rightarrow> supervisor \<Rightarrow> supervisor" where
  "perform c s = s\<lparr>effects := effects s @ [\<lparr>call = c, stopping_then = stopping s\<rparr>]\<rparr>"

definition stream_op :: "os \<Rightarrow> os_call \<Rightarrow> supervisor \<Rightarrow> supervisor outcome" where
  "stream_op env c s = (if stream_throws env c then Thrown (perform c s) else Returned (perform c s))"

definition proc_handle :: "proc_id \<Rightarrow> supervisor \<Rightarrow> child option" where
  "proc_handle pid s = (case pid of Ffmpeg \<Rightarrow> procFfmpeg s | Ffplay \<Rightarrow> procFfplay s)"

definition mark_killed :: "proc_id \<Rightarrow> supervisor \<Rightarrow> supervisor" where
  "mark_killed pid s =
     (case pid of
        Ffmpeg \<Rightarrow> s\<lparr>procFfmpeg := map_option (\<lambda>c. c\<lparr>killed := True\<rparr>) (procFfmpeg s)\<rparr>
      | Ffplay \<Rightarrow> s\<lparr>procFfplay := map_option (\<lambda>c. c\<lparr>killed := True\<rparr>) (procFfplay s)\<rparr>)"

text \<open>\<^verbatim>\<open>proc.kill("SIGTERM")\<close>: the \<open>killed\<close> flag is set when the signal was delivered.\<close>

definition kill :: "os \<Rightarrow> proc_id \<Rightarrow> supervisor \<Rightarrow> supervisor outcome" where
  "kill env pid s =
     (case kill_res env pid of
        Delivered \<Rightarrow> Returned (mark_killed pid (perform (Kill pid) s))
      | NotDelivered \<Rightarrow> Returned (perform (Kill pid) s)
      | KillThrows \<Rightarrow> Thrown (perform (Kill pid) s))"

text \<open>\<^verbatim>\<open>proc?.kill("SIGTERM")\<close>: nothing happens on a null handle.\<close>

definition kill_if_present :: "os \<Rightarrow> proc_id \<Rightarrow> supervisor \<Rightarrow> supervisor outcome" where
  "kill_if_present env pid s = (case proc_handle pid s of None \<Rightarrow> Returned s | Some c \<Rightarrow> kill env pid s)"

text \<open>
  \<^verbatim>\<open>startPipeline\<close>: clears \<open>stopping\<close>, spawns the encoder with a piped standard
  output and the sink with a piped standard input, and links the two streams.
\<close>

definition startPipeline :: "supervisor \<Rightarrow> supervisor" where
  "startPipeline s0 =
     (let s1 = s0\<lparr>stopping := False\<rparr>;
          s2 = (perform (Spawn Ffmpeg) s1)\<lparr>procFfmpeg := Some \<lparr>has_stdout = True, has_stdin = False, killed = False\<rparr>\<rparr>;
          s3 = (perform (Spawn Ffplay) s2)\<lparr>procFfplay := Some \<lparr>has_stdout = False, has_stdin = True, killed = False\<rparr>\<rparr>;
          s4 = perform PipeStreams s3
      in perform (ConsoleLog ''[pipeline] running.'') s4)"

text \<open>
  The only listener for the end of a child process is the one on the sink
  (\<^verbatim>\<open>procFfplay.on("close", ...)\<close>); the encoder has an \<^verbatim>\<open>error\<close> listener that
  logs, and no listener for its end.
\<close>

definition on_ffplay_close :: "os \<Rightarrow> supervisor \<Rightarrow> supervisor outcome" where
  "on_ffplay_close env s =
     (if \<not> stopping s \<and> (case procFfmpeg s of None \<Rightarrow> False | Some m \<Rightarrow> \<not> killed m)
      then try_catch (kill env Ffmpeg s)
      else Returned s)"

definition on_child_close :: "os \<Rightarrow> proc_id \<Rightarrow> supervisor \<Rightarrow> supervisor outcome" where
  "on_child_close env pid s = (case pid of Ffplay \<Rightarrow> on_ffplay_close env s | Ffmpeg \<Rightarrow> Returned s)"

text \<open>\<^verbatim>\<open>stopPipeline\<close>, statement by statement.\<close>

definition both_streams :: "supervisor \<Rightarrow> bool" where
  "both_streams s =
     ((case procFfmpeg s of None \<Rightarrow> False | Some m \<Rightarrow> has_stdout m)
      \<and> (case procFfplay s of None \<Rightarrow> False | Some p \<Rightarrow> has_stdin p))"

definition unlink_streams :: "os \<Rightarrow> supervisor \<Rightarrow> supervisor outcome" where
  "unlink_streams env s =
     (if both_streams s
      then in_order
             [\<lambda>s. try_catch (stream_op env Unpipe s),
              \<lambda>s. try_catch (stream_op env EndStdin s),
              \<lambda>s. try_catch (stream_op env DestroyStdin s)] s
      else Returned s)"

definition stopPipeline :: "os \<Rightarrow> supervisor \<Rightarrow> supervisor outcome" where
  "stopPipeline env s0 =
     in_order
       [\<lambda>s. Returned (s\<lparr>stopping := True\<rparr>),
        \<lambda>s. try_catch (unlink_streams env s),
        \<lambda>s. try_catch (kill_if_present env Ffplay s),
        \<lambda>s. try_catch (kill_if_present env Ffmpeg s),
        \<lambda>s. Returned (s\<lparr>procFfplay := None, procFfmpeg := None\<rparr>),
        \<lambda>s. Returned (perform (ConsoleLog ''[pipeline] stopped.'') s)] s0"

definition idle :: supervisor where
  "idle = \<lparr>procFfmpeg = None, procFfplay = None, stopping = False, effects = []\<rparr>"

text \<open>Two operating systems for the examples: one where every call succeeds, one where
  every call throws.\<close>

definition calm :: os where
  "calm = \<lparr>kill_res = (\<lambda>pid. Delivered), stream_throws = (\<lambda>c. False)\<rparr>"

definition hostile :: os where
  "hostile = \<lparr>kill_res = (\<lambda>pid. KillThrows), stream_throws = (\<lambda>c. True)\<rparr>"

definition kills :: "supervisor \<Rightarrow> proc_id list" where
  "kills s = concat (map (\<lambda>e. case call e of Kill pid \<Rightarrow> [pid] | _ \<Rightarrow> []) (effects s))"

section \<open>The control loop\<close>

text \<open>
  Time is in milliseconds. One iteration of the loop of \<^verbatim>\<open>main\<close> awaits the probe,
  takes one of the two branches, stores the reading in \<open>camWasActive\<close> and sleeps for
  \<open>CAM_POLL_MS\<close>. The program runs on one thread: the callback of the debounce timer
  runs only while the loop is suspended in an \<^verbatim>\<open>await\<close>, at its deadline. The inputs
  are, for each poll, the reading and the time the probe took, and for the n-th call of
  \<open>setMusicVolume\<close> the time until that call settles, if it ever does. The polls of a
  run are polls whose probe resolved: a probe that rejects ends \<^verbatim>\<open>main\<close>.
\<close>

definition CAM_POLL_MS :: nat where
  "CAM_POLL_MS = 150"

definition DEBOUNCE_MS :: nat where
  "DEBOUNCE_MS = 300"

datatype origin = PollLoop | DebounceTimer

record command =
  issued_at :: nat
  gain_sent :: gain
  issued_by :: origin
  settles_at :: "nat option"

record poll =
  reading :: bool
  probe_ms :: nat

text \<open>
  \<open>stopTimer\<close> holds the deadline of the timer while it is armed; a null handle, a
  cleared timer and a timer that has fired are all \<open>None\<close> (\<^verbatim>\<open>clearTimeout\<close> does
  nothing on them). \<open>suspended\<close> says that the loop awaits a call that never settles.
\<close>

record loop_state =
  now :: nat
  camWasActive :: bool
  stopTimer :: "nat option"
  cmds :: "command list"
  suspended :: bool

type_synonym replies = "nat \<Rightarrow> nat option"

text \<open>A call \<^verbatim>\<open>setMusicVolume(v)\<close> at time \<open>t\<close>, on the connected socket.\<close>

definition issue :: "replies \<Rightarrow> nat \<Rightarrow> gain \<Rightarrow> origin \<Rightarrow> loop_state \<Rightarrow> loop_state" where
  "issue rt t v who s =
     s\<lparr>cmds := cmds s @
        [\<lparr>issued_at = t, gain_sent = v, issued_by = who,
          settles_at = map_option (\<lambda>w. t + w) (rt (length (cmds s)))\<rparr>]\<rparr>"

text \<open>
  Time passes until \<open>t\<close> with the loop suspended: an armed timer whose deadline is
  reached runs its callback, \<^verbatim>\<open>setMusicVolume(0.0)\<close>, which is not awaited. A timer
  due in the very millisecond in which the awaited promise settles runs first.
\<close>

definition run_timers :: "replies \<Rightarrow> nat \<Rightarrow> loop_state \<Rightarrow> loop_state" where
  "run_timers rt t s =
     (case stopTimer s of
        None \<Rightarrow> s
      | Some d \<Rightarrow> if d \<le> t then issue rt d 0 DebounceTimer (s\<lparr>stopTimer := None\<rparr>) else s)"

text \<open>\<^verbatim>\<open>await setMusicVolume(MUSIC_GAIN_ACTIVE)\<close> in the loop.\<close>

definition await_command :: "replies \<Rightarrow> nat \<Rightarrow> loop_state \<Rightarrow> loop_state" where
  "await_command rt t s =
     (let n = length (cmds s);
          s' = issue rt t MUSIC_GAIN_ACTIVE PollLoop s
      in case rt n of None \<Rightarrow> s'\<lparr>suspended := True\<rparr> | Some w \<Rightarrow> s'\<lparr>now := t + w\<rparr>)"

definition poll_step :: "replies \<Rightarrow> poll \<Rightarrow> loop_state \<Rightarrow> loop_state" where
  "poll_step rt p s =
     (if suspended s then s
      else
        let t = now s + probe_ms p;
            s1 = (run_timers rt t s)\<lparr>now := t\<rparr>;
            s2 = (if reading p \<and> \<not> camWasActive s1
                    then await_command rt t (s1\<lparr>stopTimer := None\<rparr>)
                  else if \<not> reading p \<and> camWasActive s1
                    then s1\<lparr>stopTimer := Some (t + DEBOUNCE_MS)\<rparr>
                  else s1)
        in if suspended s2 then s2
           else s2\<lparr>camWasActive := reading p, now := now s2 + CAM_POLL_MS\<rparr>)"

fun run :: "replies \<Rightarrow> poll list \<Rightarrow> loop_state \<Rightarrow> loop_state" where
  "run rt [] s = s"
| "run rt (p # ps) s = run rt ps (poll_step rt p s)"

text \<open>The state in which the loop is entered: \<open>camWasActive = false\<close>, \<open>stopTimer = null\<close>.\<close>

definition loop_entry :: "nat \<Rightarrow> loop_state" where
  "loop_entry t = \<lparr>now = t, camWasActive = False, stopTimer = None, cmds = [], suspended = False\<rparr>"

text \<open>The two commands the loop issues, as they appear in the trace, and the time a
  run of polls takes when each is followed by the sleep only.\<close>

definition active_command :: "replies \<Rightarrow> nat \<Rightarrow> nat \<Rightarrow> command" where
  "active_command rt n t =
     \<lparr>issued_at = t, gain_sent = MUSIC_GAIN_ACTIVE, issued_by = PollLoop,
      settles_at = map_option (\<lambda>w. t + w) (rt n)\<rparr>"

definition mute_command :: "replies \<Rightarrow> nat \<Rightarrow> nat \<Rightarrow> command" where
  "mute_command rt n d =
     \<lparr>issued_at = d, gain_sent = 0, issued_by = DebounceTimer,
      settles_at = map_option (\<lambda>w. d + w) (rt n)\<rparr>"

definition quiet_ms :: "poll list \<Rightarrow> nat" where
  "quiet_ms ps = sum_list (map (\<lambda>p. probe_ms p + CAM_POLL_MS) ps)"

definition from_loop :: "command list \<Rightarrow> command list" where
  "from_loop cs = filter (\<lambda>c. issued_by c = PollLoop) cs"

definition from_timer :: "command list \<Rightarrow> command list" where
  "from_timer cs = filter (\<lambda>c. issued_by c = DebounceTimer) cs"







text \<open>Inputs used in the examples: a poll that takes no time, a reply after \<open>w\<close> ms.\<close>

definition seen :: "bool \<Rightarrow> nat \<Rightarrow> poll" where
  "seen b ms = \<lparr>reading = b, probe_ms = ms\<rparr>"

definition replies_after :: "nat \<Rightarrow> replies" where
  "replies_after w n = Some w"


section \<open>Theorems\<close>

text \<open>
  C10: when the control connection has not been initialised (\<open>zmqSock\<close> is null),
  \<open>setMusicVolume\<close> returns at once: the call completes normally, nothing is sent on
  any socket and no error is raised, whatever the gain and whatever the transport
  would have done.
\<close>

theorem setMusicVolume_null_socket_noop:
  "setMusicVolume None vol tr = (Resolved (), [])"
  by (simp add: setMusicVolume_def)

subsection \<open>The command sent by \<open>setMusicVolume\<close>\<close>

lemma number_text_examples:
  "number_text MUSIC_GAIN_ACTIVE = ''0.35''" "number_text 0 = ''0''"
  by code_simp+

text \<open>
  C8, as amended: on a connected socket \<open>setMusicVolume v\<close> makes exactly one send call,
  with the text \<open>volume@mus volume <v>\<close>; it awaits at most one reply, only after the
  send resolved, and the content of the reply does not matter; it never throws, whatever
  the transport does. It completes exactly when the transport settles: a failed send or
  a failed receive is swallowed, but while the send or the reply never settles the call
  stays pending.
\<close>

theorem setMusicVolume_one_command_never_throws:
  "filter (\<lambda>c. c \<noteq> ReceiveCall) (snd (setMusicVolume (Some sock) vol tr))
     = [SendCall (''volume@mus volume '' @ number_text vol)]
   \<and> length (filter (\<lambda>c. c = ReceiveCall) (snd (setMusicVolume (Some sock) vol tr)))
     = (if on_send tr = SendOk then 1 else 0)
   \<and> fst (setMusicVolume (Some sock) vol tr) \<noteq> Rejected e
   \<and> fst (setMusicVolume (Some sock) vol (tr\<lparr>on_receive := Reply r\<rparr>))
     = fst (setMusicVolume (Some sock) vol (tr\<lparr>on_receive := Reply r'\<rparr>))
   \<and> fst (setMusicVolume (Some sock) vol tr)
     = (if on_send tr = SendPending \<or> (on_send tr = SendOk \<and> on_receive tr = NoReply)
        then Pending else Resolved ())"
  by (auto simp: setMusicVolume_def socket_calls_def zmq_send_def zmq_receive_def
      split: send_result.splits recv_result.splits)

text \<open>
  The claim as stated fails when the reply is missing: the request is sent, no reply ever
  arrives, and the call does not complete.
\<close>

theorem setMusicVolume_missing_reply_counterexample:
  "setMusicVolume (Some (RequestSocket (Some ZMQ_ENDPOINT))) 0 \<lparr>on_send = SendOk, on_receive = NoReply\<rparr>
     = (Pending, [SendCall ''volume@mus volume 0'', ReceiveCall])"
  by (simp add: setMusicVolume_def zmq_send_def zmq_receive_def socket_calls_def number_text_examples)

subsection \<open>Connecting\<close>

subsection \<open>Connecting\<close>

lemma setMusicVolume_not_rejected: "fst (setMusicVolume z v tr) \<noteq> Rejected e"
  by (auto simp: setMusicVolume_def zmq_send_def zmq_receive_def
      split: option.splits send_result.splits recv_result.splits)

lemma startup_command_pending_or_loop:
  "await (fst (setMusicVolume z v tr)) (\<lambda>_. Pending) = Pending"
  by (cases "fst (setMusicVolume z v tr)") (simp_all add: setMusicVolume_not_rejected)

lemma valid_ZMQ_ENDPOINT: "valid_endpoint ZMQ_ENDPOINT"
  by (simp add: valid_endpoint_def ZMQ_ENDPOINT_def)

text \<open>
  C9, as amended: \<open>initZmq\<close> catches nothing. Whatever the connect call of the library
  does, \<open>initZmq\<close> fails exactly when that call fails, with the same error; \<open>main\<close>
  then fails with it before the loop is entered, and the process ends with exit code 1
  exactly in that case. The connect call the program runs with does not test whether the
  endpoint can be reached: on the configured endpoint \<open>initZmq\<close> resolves with the
  socket set, with or without a peer, and \<open>main\<close> does not fail at start.
\<close>

theorem initZmq_propagates_connect_errors:
  "(fst (initZmq connect p) = Rejected e) = (connect ZMQ_ENDPOINT p = Rejected e)
   \<and> (main_startup connect p tr = Rejected e) = (connect ZMQ_ENDPOINT p = Rejected e)
   \<and> (exit_code (main_startup connect p tr) = Some 1) = (\<exists>e'. connect ZMQ_ENDPOINT p = Rejected e')
   \<and> fst (initZmq zmq_connect p) = Resolved ()
   \<and> snd (initZmq zmq_connect p) = Some (RequestSocket (Some ZMQ_ENDPOINT))
   \<and> main_startup zmq_connect p tr = Pending"
proof -
  have any: "(fst (initZmq connect p) = Rejected e) = (connect ZMQ_ENDPOINT p = Rejected e)
    \<and> (main_startup connect p tr = Rejected e) = (connect ZMQ_ENDPOINT p = Rejected e)
    \<and> (exit_code (main_startup connect p tr) = Some 1) = (\<exists>e'. connect ZMQ_ENDPOINT p = Rejected e')"
    by (cases "connect ZMQ_ENDPOINT p")
      (simp_all add: initZmq_def main_startup_def exit_code_def startup_command_pending_or_loop)
  have lib: "zmq_connect ZMQ_ENDPOINT p = Resolved ()"
    by (simp add: zmq_connect_def valid_ZMQ_ENDPOINT)
  have "fst (initZmq zmq_connect p) = Resolved ()"
    and "snd (initZmq zmq_connect p) = Some (RequestSocket (Some ZMQ_ENDPOINT))"
    and "main_startup zmq_connect p tr = Pending"
    by (simp_all add: initZmq_def main_startup_def lib startup_command_pending_or_loop)
  with any show ?thesis
    by simp
qed

text \<open>
  The claim as stated fails: with no peer at the endpoint \<open>initZmq\<close> resolves, and
  the failure shows only in the first command, which is sent and never answered, so that
  \<open>main\<close> waits for it and the process does not end.
\<close>

theorem unreachable_endpoint_connects_counterexample:
  "fst (initZmq zmq_connect NoPeer) = Resolved ()
   \<and> fst (setMusicVolume (snd (initZmq zmq_connect NoPeer)) 0 \<lparr>on_send = SendOk, on_receive = NoReply\<rparr>) = Pending
   \<and> exit_code (main_startup zmq_connect NoPeer \<lparr>on_send = SendOk, on_receive = NoReply\<rparr>) = None"
  by (simp add: initZmq_def main_startup_def exit_code_def zmq_connect_def valid_ZMQ_ENDPOINT
      setMusicVolume_def zmq_send_def zmq_receive_def)

subsection \<open>The activity probe\<close>

lemma probe_events_data:
  "probe_events out (map StdoutData ds @ rest) = probe_events (out @ concat ds) rest"
  by (induction ds arbitrary: out) simp_all

lemma probe_events_not_rejected: "probe_events out evs \<noteq> Rejected e"
  by (induction out evs rule: probe_events.induct) simp_all

lemma probe_events_settles:
  "list_ex ends_process evs \<Longrightarrow> \<exists>b. probe_events out evs = Resolved b"
  by (induction out evs rule: probe_events.induct) auto

lemma includes_true_empty: "js_includes (toLowerCase (trim [])) ''true'' = False"
  by (simp add: trim_def toLowerCase_def)

lemma js_includes_iff: "js_includes h n = (\<exists>pre suf. h = pre @ n @ suf)"
proof (induction h)
  case Nil
  then show ?case by auto
next
  case (Cons c cs)
  have "take (length n) (c # cs) = n \<longleftrightarrow> (\<exists>suf. c # cs = n @ suf)"
    by (metis append_eq_conv_conj append_take_drop_id)
  moreover have "(\<exists>pre suf. c # cs = pre @ n @ suf)
      \<longleftrightarrow> (\<exists>suf. c # cs = n @ suf) \<or> (\<exists>pre suf. cs = pre @ n @ suf)"
  proof
    assume "\<exists>pre suf. c # cs = pre @ n @ suf"
    then obtain pre suf where *: "c # cs = pre @ n @ suf" by blast
    show "(\<exists>suf. c # cs = n @ suf) \<or> (\<exists>pre suf. cs = pre @ n @ suf)"
    proof (cases pre)
      case Nil
      with * show ?thesis by auto
    next
      case (Cons a pre')
      with * have "cs = pre' @ n @ suf" by simp
      then show ?thesis by blast
    qed
  next
    assume "(\<exists>suf. c # cs = n @ suf) \<or> (\<exists>pre suf. cs = pre @ n @ suf)"
    then show "\<exists>pre suf. c # cs = pre @ n @ suf"
    proof
      assume "\<exists>suf. c # cs = n @ suf"
      then show ?thesis by (metis append_Nil)
    next
      assume "\<exists>pre suf. cs = pre @ n @ suf"
      then show ?thesis by (metis append_Cons)
    qed
  qed
  ultimately show ?case
    using Cons.IH by simp
qed

lemma js_includes_rev: "js_includes (rev h) (rev n) = js_includes h n"
proof -
  have "(\<exists>pre suf. rev h = pre @ rev n @ suf) = (\<exists>pre suf. h = pre @ n @ suf)"
  proof
    assume "\<exists>pre suf. rev h = pre @ rev n @ suf"
    then obtain pre suf where "rev h = pre @ rev n @ suf" by blast
    then have "h = rev suf @ n @ rev pre"
      by (metis append.assoc rev_append rev_rev_ident)
    then show "\<exists>pre suf. h = pre @ n @ suf" by blast
  next
    assume "\<exists>pre suf. h = pre @ n @ suf"
    then obtain pre suf where "h = pre @ n @ suf" by blast
    then have "rev h = rev suf @ rev n @ rev pre" by simp
    then show "\<exists>pre suf. rev h = pre @ rev n @ suf" by blast
  qed
  then show ?thesis by (simp add: js_includes_iff)
qed

lemma js_includes_skip:
  assumes "\<forall>x\<in>set a. x \<noteq> c"
  shows "js_includes (a @ h) (c # n) = js_includes h (c # n)"
  using assms by (induction a) auto

lemma lower_char_space: "is_space x \<Longrightarrow> lower_char x = x"
  by (auto simp: is_space_def lower_char_def)

lemma spaces_not_letter:
  assumes "\<forall>x\<in>set a. is_space x" "\<not> is_space c"
  shows "\<forall>x\<in>set (map lower_char a). x \<noteq> c"
  using assms by (auto simp: lower_char_space)

lemma includes_dropWhile:
  assumes "\<not> is_space c"
  shows "js_includes (toLowerCase (dropWhile is_space s)) (c # n) = js_includes (toLowerCase s) (c # n)"
proof -
  have "toLowerCase s = map lower_char (takeWhile is_space s) @ toLowerCase (dropWhile is_space s)"
    unfolding toLowerCase_def by (metis map_append takeWhile_dropWhile_id)
  moreover have "\<forall>x\<in>set (map lower_char (takeWhile is_space s)). x \<noteq> c"
    using assms by (intro spaces_not_letter) (auto dest: set_takeWhileD)
  ultimately show ?thesis
    by (simp add: js_includes_skip)
qed

lemma includes_true_trim:
  "js_includes (toLowerCase (trim s)) ''true'' = js_includes (toLowerCase s) ''true''"
proof -
  let ?m = "dropWhile is_space s"
  have t: "\<not> is_space CHR ''t''" and e: "\<not> is_space CHR ''e''"
    by (simp_all add: is_space_def)
  have "js_includes (toLowerCase (trim s)) ''true''
      = js_includes (rev (toLowerCase (trim s))) (rev ''true'')"
    by (simp only: js_includes_rev)
  also have "\<dots> = js_includes (toLowerCase (dropWhile is_space (rev ?m))) ''eurt''"
    by (simp add: trim_def toLowerCase_def rev_map)
  also have "\<dots> = js_includes (toLowerCase (rev ?m)) ''eurt''"
    using e by (rule includes_dropWhile)
  also have "\<dots> = js_includes (rev (toLowerCase ?m)) (rev ''true'')"
    by (simp add: toLowerCase_def rev_map)
  also have "\<dots> = js_includes (toLowerCase ?m) ''true''"
    by (simp only: js_includes_rev)
  also have "\<dots> = js_includes (toLowerCase s) ''true''"
    using t by (rule includes_dropWhile)
  finally show ?thesis .
qed

text \<open>
  C7, as amended: when the spawn call has returned a child with its standard output
  piped, \<open>isWebcamInUse\<close> never rejects, and once the query ends (the child emits
  \<open>close\<close> or \<open>error\<close>) it resolves to a boolean. An \<open>error\<close> event before
  \<open>close\<close> resolves to false, whatever was printed before; empty output resolves to
  false; any other output resolves to true exactly when it contains \<open>true\<close>, in any
  letter case.
\<close>

theorem isWebcamInUse_resolves_once_spawned:
  assumes "list_ex ends_process evs"
  shows "(\<exists>b. isWebcamInUse (Spawned True evs) = Resolved b)
    \<and> isWebcamInUse (Spawned True evs') \<noteq> Rejected e
    \<and> isWebcamInUse (Spawned True (map StdoutData ds @ ProbeError m # rest)) = Resolved False
    \<and> isWebcamInUse (Spawned True (ProbeClose # rest)) = Resolved False
    \<and> isWebcamInUse (Spawned True (map StdoutData ds @ ProbeClose # rest))
        = Resolved (\<exists>pre suf. toLowerCase (concat ds) = pre @ ''true'' @ suf)"
proof -
  have "\<exists>b. isWebcamInUse (Spawned True evs) = Resolved b"
    using assms by (simp add: isWebcamInUse_def probe_events_settles)
  moreover have "isWebcamInUse (Spawned True evs') \<noteq> Rejected e"
    by (simp add: isWebcamInUse_def probe_events_not_rejected)
  moreover have "isWebcamInUse (Spawned True (map StdoutData ds @ ProbeError m # rest)) = Resolved False"
    by (simp add: isWebcamInUse_def probe_events_data)
  moreover have "isWebcamInUse (Spawned True (ProbeClose # rest)) = Resolved False"
    by (simp add: isWebcamInUse_def includes_true_empty)
  moreover have "isWebcamInUse (Spawned True (map StdoutData ds @ ProbeClose # rest))
        = Resolved (\<exists>pre suf. toLowerCase (concat ds) = pre @ ''true'' @ suf)"
    by (simp only: isWebcamInUse_def probe_events_data spawn_result.case if_True append_Nil
        probe_events.simps includes_true_trim)
      (simp only: js_includes_iff)
  ultimately show ?thesis
    by blast
qed

theorem isWebcamInUse_resolves_once_spawned_witness:
  "list_ex ends_process [StdoutData ''False'', StdoutData [CHR 0x0D, CHR 0x0A], ProbeClose]
   \<and> isWebcamInUse (Spawned True [StdoutData ''False'', StdoutData [CHR 0x0D, CHR 0x0A], ProbeClose]) = Resolved False
   \<and> isWebcamInUse (Spawned True [StdoutData ''garbage'', ProbeError ''ENOENT'']) = Resolved False
   \<and> isWebcamInUse (Spawned True [ProbeClose]) = Resolved False"
  using isWebcamInUse_resolves_once_spawned
    [of "[StdoutData ''False'', StdoutData [CHR 0x0D, CHR 0x0A], ProbeClose]"
      "[]" "''x''" "[''garbage'']" "''ENOENT''" "[]"]
  by (simp add: isWebcamInUse_def trim_def toLowerCase_def lower_char_def is_space_def)

text \<open>
  The claim as stated fails twice: when the spawn call itself throws, the promise
  rejects; and output that is not an answer of the query but contains the letters
  \<open>true\<close> resolves to true, not to false.
\<close>

theorem probe_rejects_or_answers_true_counterexample:
  "isWebcamInUse (SpawnThrows ''spawn ENOMEM'') = Rejected ''spawn ENOMEM''
   \<and> isWebcamInUse (Spawned True [StdoutData ''Untrue'', ProbeClose]) = Resolved True"
  by (simp add: isWebcamInUse_def trim_def toLowerCase_def lower_char_def is_space_def)

subsection \<open>The pipeline supervisor\<close>

lemma try_catch_returns: "try_catch r = Returned (state_of r)"
  by (cases r) simp_all

lemma kill_effects:
  "effects (state_of (kill env pid s)) = effects s @ [\<lparr>call = Kill pid, stopping_then = stopping s\<rparr>]"
  by (cases pid) (simp_all add: kill_def perform_def mark_killed_def split: kill_result.splits)

lemma kill_stopping: "stopping (state_of (kill env pid s)) = stopping s"
  by (cases pid) (simp_all add: kill_def perform_def mark_killed_def split: kill_result.splits)

lemma kill_handles:
  "(procFfmpeg (state_of (kill env pid s)) = None) = (procFfmpeg s = None)"
  "(procFfplay (state_of (kill env pid s)) = None) = (procFfplay s = None)"
  by (cases pid; simp add: kill_def perform_def mark_killed_def split: kill_result.splits)+

lemma kill_if_present_effects:
  "effects (state_of (kill_if_present env pid s))
     = effects s @ (if proc_handle pid s = None then []
                    else [\<lparr>call = Kill pid, stopping_then = stopping s\<rparr>])"
  by (simp add: kill_if_present_def kill_effects split: option.splits)

lemma kill_if_present_stopping: "stopping (state_of (kill_if_present env pid s)) = stopping s"
  by (simp add: kill_if_present_def kill_stopping split: option.splits)

lemma kill_if_present_handles:
  "(procFfmpeg (state_of (kill_if_present env pid s)) = None) = (procFfmpeg s = None)"
  "(procFfplay (state_of (kill_if_present env pid s)) = None) = (procFfplay s = None)"
  by (simp_all add: kill_if_present_def kill_handles split: option.splits)

lemma unlink_streams_state:
  "state_of (unlink_streams env s)
     = (if both_streams s then perform DestroyStdin (perform EndStdin (perform Unpipe s)) else s)"
  by (simp add: unlink_streams_def stream_op_def)

lemma stopPipeline_steps:
  "stopPipeline env s =
     Returned (perform (ConsoleLog ''[pipeline] stopped.'')
       ((state_of (kill_if_present env Ffmpeg
          (state_of (kill_if_present env Ffplay
             (state_of (unlink_streams env (s\<lparr>stopping := True\<rparr>)))))))
        \<lparr>procFfplay := None, procFfmpeg := None\<rparr>))"
  by (simp add: stopPipeline_def try_catch_returns)

lemma stopPipeline_stopped:
  "procFfmpeg s = None \<Longrightarrow> procFfplay s = None \<Longrightarrow> stopping s \<Longrightarrow>
   stopPipeline env s = Returned (perform (ConsoleLog ''[pipeline] stopped.'') s)"
  by (cases s)
    (simp add: stopPipeline_steps unlink_streams_state both_streams_def kill_if_present_def
      proc_handle_def)

lemma kills_perform_log: "kills (perform (ConsoleLog m) s) = kills s"
  by (simp add: kills_def perform_def)

text \<open>
  C5, as amended: when the sink (\<open>ffplay\<close>) ends while \<open>stopping\<close> is false and the
  encoder's handle is present and not yet killed, the supervisor sends the termination
  signal to the encoder, and the handler does not throw even if the signal fails. While
  \<open>stopping\<close> is true, the end of either child process triggers nothing. The end of the
  encoder triggers no reaction of the supervisor at all.
\<close>

theorem sink_exit_kills_encoder:
  "(\<not> stopping s \<and> procFfmpeg s = Some m \<and> \<not> killed m \<longrightarrow>
      (\<exists>s'. on_child_close env Ffplay s = Returned s'
         \<and> effects s' = effects s @ [\<lparr>call = Kill Ffmpeg, stopping_then = False\<rparr>]))
   \<and> (stopping s \<longrightarrow> on_child_close env pid s = Returned s)
   \<and> on_child_close env Ffmpeg s = Returned s"
  by (cases pid)
    (simp_all add: on_child_close_def on_ffplay_close_def try_catch_returns kill_effects)

theorem sink_exit_kills_encoder_witness:
  "kills (state_of (on_child_close calm Ffplay (startPipeline idle))) = [Ffmpeg]
   \<and> on_child_close calm Ffplay (state_of (stopPipeline calm (startPipeline idle)))
       = Returned (state_of (stopPipeline calm (startPipeline idle)))"
  using sink_exit_kills_encoder
      [of "startPipeline idle" "\<lparr>has_stdout = True, has_stdin = False, killed = False\<rparr>" calm Ffplay]
    sink_exit_kills_encoder
      [of "state_of (stopPipeline calm (startPipeline idle))"
        "\<lparr>has_stdout = True, has_stdin = False, killed = False\<rparr>" calm Ffplay]
  apply (simp add: startPipeline_def idle_def perform_def kills_def stopPipeline_def
      unlink_streams_def both_streams_def stream_op_def calm_def kill_if_present_def
      proc_handle_def kill_def mark_killed_def)
  apply auto
  done

text \<open>
  The claim as stated fails for the encoder: on a running pipeline with \<open>stopping\<close>
  false, the end of the encoder makes the supervisor signal nobody.
\<close>

theorem encoder_exit_counterexample:
  "kills (state_of (on_child_close calm Ffmpeg (startPipeline idle))) = []
   \<and> stopping (startPipeline idle) = False"
  by (simp add: on_child_close_def startPipeline_def idle_def perform_def kills_def)

text \<open>
  C6: \<open>stopPipeline\<close> never throws, whatever the calls on the streams and processes do
  and whatever the state of the handles. It ends with \<open>stopping\<close> true and both
  handles null. Every call it makes is made with \<open>stopping\<close> already true, and the
  calls are, in this order: unlinking the streams, ending and destroying the sink's
  input (these three only when both streams exist), the signal to the sink and the
  signal to the encoder (each only when the handle is present). Called again on its
  result, before any start or after the processes are gone, it only prints its log
  line: it returns, changes no global, and sends no signal a second time.
\<close>

theorem stopPipeline_idempotent:
  "\<exists>s'. stopPipeline env s = Returned s'
      \<and> stopping s' \<and> procFfmpeg s' = None \<and> procFfplay s' = None
      \<and> (\<exists>added. effects s' = effects s @ added \<and> (\<forall>e\<in>set added. stopping_then e)
          \<and> map call added =
              (if both_streams s then [Unpipe, EndStdin, DestroyStdin] else [])
              @ (if procFfplay s = None then [] else [Kill Ffplay])
              @ (if procFfmpeg s = None then [] else [Kill Ffmpeg])
              @ [ConsoleLog ''[pipeline] stopped.''])
      \<and> stopPipeline env' s' = Returned (perform (ConsoleLog ''[pipeline] stopped.'') s')
      \<and> kills (state_of (stopPipeline env' s')) = kills s'"
proof -
  define s1 where "s1 = s\<lparr>stopping := True\<rparr>"
  define s2 where "s2 = state_of (unlink_streams env s1)"
  define s3 where "s3 = state_of (kill_if_present env Ffplay s2)"
  define s4 where "s4 = state_of (kill_if_present env Ffmpeg s3)"
  define s' where
    "s' = perform (ConsoleLog ''[pipeline] stopped.'') (s4\<lparr>procFfplay := None, procFfmpeg := None\<rparr>)"
  have result: "stopPipeline env s = Returned s'"
    by (simp add: stopPipeline_steps s'_def s4_def s3_def s2_def s1_def)
  have b1: "both_streams s1 = both_streams s"
    by (simp add: s1_def both_streams_def)
  have st2: "stopping s2" and h2: "procFfplay s2 = procFfplay s" "procFfmpeg s2 = procFfmpeg s"
    by (simp_all add: s2_def unlink_streams_state s1_def perform_def)
  have e2: "effects s2 = effects s @ map (\<lambda>c. \<lparr>call = c, stopping_then = True\<rparr>)
              (if both_streams s then [Unpipe, EndStdin, DestroyStdin] else [])"
    by (simp add: s2_def unlink_streams_state b1) (simp add: s1_def perform_def)
  have st3: "stopping s3"
    by (simp add: s3_def kill_if_present_stopping st2)
  have h3: "(procFfmpeg s3 = None) = (procFfmpeg s = None)"
    by (simp add: s3_def kill_if_present_handles h2)
  have e3: "effects s3 = effects s2 @ map (\<lambda>c. \<lparr>call = c, stopping_then = True\<rparr>)
              (if procFfplay s = None then [] else [Kill Ffplay])"
    by (simp add: s3_def kill_if_present_effects proc_handle_def h2 st2)
  have st4: "stopping s4"
    by (simp add: s4_def kill_if_present_stopping st3)
  have e4: "effects s4 = effects s3 @ map (\<lambda>c. \<lparr>call = c, stopping_then = True\<rparr>)
              (if procFfmpeg s = None then [] else [Kill Ffmpeg])"
    by (simp add: s4_def kill_if_present_effects proc_handle_def h3 st3)
  have globals: "stopping s'" "procFfmpeg s' = None" "procFfplay s' = None"
    by (simp_all add: s'_def perform_def st4)
  have e': "effects s' = effects s @ map (\<lambda>c. \<lparr>call = c, stopping_then = True\<rparr>)
              ((if both_streams s then [Unpipe, EndStdin, DestroyStdin] else [])
               @ (if procFfplay s = None then [] else [Kill Ffplay])
               @ (if procFfmpeg s = None then [] else [Kill Ffmpeg])
               @ [ConsoleLog ''[pipeline] stopped.''])"
    by (simp add: s'_def perform_def st4 e4 e3 e2)
  have added: "\<exists>added. effects s' = effects s @ added \<and> (\<forall>e\<in>set added. stopping_then e)
          \<and> map call added =
              (if both_streams s then [Unpipe, EndStdin, DestroyStdin] else [])
              @ (if procFfplay s = None then [] else [Kill Ffplay])
              @ (if procFfmpeg s = None then [] else [Kill Ffmpeg])
              @ [ConsoleLog ''[pipeline] stopped.'']"
    unfolding e' by (intro exI conjI, rule refl) (auto simp: comp_def)
  have again: "stopPipeline env' s' = Returned (perform (ConsoleLog ''[pipeline] stopped.'') s')"
    by (rule stopPipeline_stopped) (simp_all add: globals)
  have "kills (state_of (stopPipeline env' s')) = kills s'"
    by (simp add: again kills_perform_log)
  with result globals added again show ?thesis
    by blast
qed

theorem stopPipeline_idempotent_witness:
  "map call (effects (state_of (stopPipeline hostile (startPipeline idle))))
     = [Spawn Ffmpeg, Spawn Ffplay, PipeStreams, ConsoleLog ''[pipeline] running.'',
        Unpipe, EndStdin, DestroyStdin, Kill Ffplay, Kill Ffmpeg, ConsoleLog ''[pipeline] stopped.'']
   \<and> kills (state_of (stopPipeline calm (state_of (stopPipeline hostile (startPipeline idle)))))
     = [Ffplay, Ffmpeg]
   \<and> stopPipeline calm idle
     = Returned \<lparr>procFfmpeg = None, procFfplay = None, stopping = True,
         effects = [\<lparr>call = ConsoleLog ''[pipeline] stopped.'', stopping_then = True\<rparr>]\<rparr>"
  using stopPipeline_idempotent [of hostile "startPipeline idle" calm]
    stopPipeline_idempotent [of calm idle calm]
  apply (simp add: startPipeline_def idle_def perform_def both_streams_def kills_def)
  apply auto
  done

subsection \<open>The control loop\<close>

lemma run_append: "run rt (ps @ qs) s = run rt qs (run rt ps s)"
  by (induction ps arbitrary: s) simp_all

lemma run_timers_fields [simp]:
  "camWasActive (run_timers rt t s) = camWasActive s"
  "suspended (run_timers rt t s) = suspended s"
  "now (run_timers rt t s) = now s"
  by (simp_all add: run_timers_def issue_def split: option.splits)

lemma run_timers_cmds:
  "cmds (run_timers rt t s) =
     cmds s @ (case stopTimer s of None \<Rightarrow> [] | Some d \<Rightarrow> if d \<le> t then [mute_command rt (length (cmds s)) d] else [])"
  by (simp add: run_timers_def issue_def mute_command_def split: option.splits)

lemma run_timers_stopTimer:
  "stopTimer (run_timers rt t s) = (case stopTimer s of None \<Rightarrow> None | Some d \<Rightarrow> if d \<le> t then None else Some d)"
  by (simp add: run_timers_def issue_def split: option.splits)

lemma run_timers_idle: "stopTimer s = None \<Longrightarrow> run_timers rt t s = s"
  by (simp add: run_timers_def)

lemma run_timers_now: "run_timers rt t (s\<lparr>now := x\<rparr>) = (run_timers rt t s)\<lparr>now := x\<rparr>"
  by (simp add: run_timers_def issue_def split: option.splits)

lemma run_timers_twice: "t1 \<le> t2 \<Longrightarrow> run_timers rt t2 (run_timers rt t1 s) = run_timers rt t2 s"
  by (simp add: run_timers_def issue_def split: option.splits)

lemma run_timers_max: "run_timers rt t2 (run_timers rt t1 s) = run_timers rt (max t1 t2) s"
  by (auto simp add: run_timers_def issue_def max_def split: option.splits)

lemma from_loop_run_timers: "from_loop (cmds (run_timers rt t s)) = from_loop (cmds s)"
  by (simp add: run_timers_cmds from_loop_def mute_command_def split: option.splits)

lemma poll_step_false_inactive:
  assumes "\<not> suspended s" "\<not> camWasActive s" "\<not> reading p"
  shows "poll_step rt p s = (run_timers rt (now s + probe_ms p) s)\<lparr>now := now s + probe_ms p + CAM_POLL_MS\<rparr>"
proof -
  have "camWasActive (run_timers rt (now s + probe_ms p) s) = False"
    using assms by simp
  then have "(run_timers rt (now s + probe_ms p) s)\<lparr>camWasActive := False\<rparr> = run_timers rt (now s + probe_ms p) s"
    by (cases "run_timers rt (now s + probe_ms p) s") simp
  then show ?thesis
    using assms by (simp add: poll_step_def Let_def) 
qed

lemma poll_step_true_inactive:
  assumes "\<not> suspended s" "\<not> camWasActive s" "reading p"
  shows "cmds (poll_step rt p s) = cmds (run_timers rt (now s + probe_ms p) s)
            @ [active_command rt (length (cmds (run_timers rt (now s + probe_ms p) s))) (now s + probe_ms p)]"
    and "stopTimer (poll_step rt p s) = None"
    and "suspended (poll_step rt p s) \<or> camWasActive (poll_step rt p s)"
  using assms
  by (simp_all add: poll_step_def Let_def await_command_def issue_def active_command_def split: option.splits)

lemma poll_step_true_active:
  assumes "suspended s \<or> (camWasActive s \<and> stopTimer s = None)" "reading p"
  shows "cmds (poll_step rt p s) = cmds s"
    and "suspended (poll_step rt p s) \<or> (camWasActive (poll_step rt p s) \<and> stopTimer (poll_step rt p s) = None)"
  using assms
  by (auto simp add: poll_step_def Let_def run_timers_idle)

lemma run_true_active:
  assumes "suspended s \<or> (camWasActive s \<and> stopTimer s = None)" "\<forall>q\<in>set ts. reading q"
  shows "cmds (run rt ts s) = cmds s"
  using assms
proof (induction ts arbitrary: s)
  case Nil
  then show ?case by simp
next
  case (Cons q ts)
  have "cmds (run rt ts (poll_step rt q s)) = cmds (poll_step rt q s)"
    using Cons.prems by (intro Cons.IH poll_step_true_active) simp_all
  then show ?case
    using Cons.prems by (simp add: poll_step_true_active)
qed

lemma quiet_run:
  assumes "\<not> suspended s" "\<not> camWasActive s" "\<forall>q\<in>set fs. \<not> reading q" "fs \<noteq> []"
  shows "run rt fs s = (run_timers rt (now s + quiet_ms fs - CAM_POLL_MS) s)\<lparr>now := now s + quiet_ms fs\<rparr>"
  using assms
proof (induction fs arbitrary: s)
  case Nil
  then show ?case by simp
next
  case (Cons p fs)
  let ?t = "now s + probe_ms p"
  let ?s' = "(run_timers rt ?t s)\<lparr>now := ?t + CAM_POLL_MS\<rparr>"
  have step: "poll_step rt p s = ?s'"
    using Cons.prems by (simp add: poll_step_false_inactive)
  show ?case
  proof (cases "fs = []")
    case True
    then show ?thesis by (simp add: step quiet_ms_def)
  next
    case False
    have "run rt fs ?s' = (run_timers rt (now ?s' + quiet_ms fs - CAM_POLL_MS) ?s')\<lparr>now := now ?s' + quiet_ms fs\<rparr>"
      using Cons.prems False by (intro Cons.IH) simp_all
    moreover have "?t \<le> now ?s' + quiet_ms fs - CAM_POLL_MS"
      by simp
    ultimately show ?thesis
      by (simp add: step run_timers_now run_timers_twice quiet_ms_def add.assoc)
  qed
qed

lemma quiet_run_fields:
  assumes "\<not> suspended s" "\<not> camWasActive s" "\<forall>q\<in>set fs. \<not> reading q"
  shows "\<not> suspended (run rt fs s)" "\<not> camWasActive (run rt fs s)"
    "from_loop (cmds (run rt fs s)) = from_loop (cmds s)"
  using assms by (cases "fs = []"; simp add: quiet_run from_loop_run_timers)+

lemmas loop_eval = poll_step_def run_timers_def await_command_def issue_def loop_entry_def seen_def
  replies_after_def CAM_POLL_MS_def DEBOUNCE_MS_def Let_def

text \<open>
  C1: let the loop be in the inactive state (\<open>camWasActive\<close> false), and let the
  probe return false any number of times, then true, then true any number of times,
  with any probe and reply times. Then over all these polls the loop issues exactly one
  command: the active command (gain \<open>MUSIC_GAIN_ACTIVE\<close>), at the moment the first true
  reading arrives. It is the last command of the trace: nothing is issued after it, by
  the loop or by the timer, while the readings remain true.
\<close>

theorem active_command_on_first_true_reading:
  assumes "\<not> camWasActive s" and "\<not> suspended s"
    and "\<forall>q\<in>set fs. \<not> reading q" and "reading p" and "\<forall>q\<in>set ts. reading q"
  shows "\<exists>before c. cmds (run rt (fs @ p # ts) s) = before @ [c]
           \<and> from_loop before = from_loop (cmds s)
           \<and> gain_sent c = MUSIC_GAIN_ACTIVE \<and> issued_by c = PollLoop
           \<and> issued_at c = now (run rt fs s) + probe_ms p"
proof -
  let ?s0 = "run rt fs s"
  let ?t = "now ?s0 + probe_ms p"
  let ?before = "cmds (run_timers rt ?t ?s0)"
  let ?c = "active_command rt (length ?before) ?t"
  let ?s1 = "poll_step rt p ?s0"
  have quiet: "\<not> suspended ?s0" "\<not> camWasActive ?s0" "from_loop (cmds ?s0) = from_loop (cmds s)"
    using assms by (simp_all add: quiet_run_fields)
  have first: "cmds ?s1 = ?before @ [?c]"
    and settled: "suspended ?s1 \<or> (camWasActive ?s1 \<and> stopTimer ?s1 = None)"
    using quiet assms(4) poll_step_true_inactive [of ?s0 p rt] by auto
  have "cmds (run rt ts ?s1) = cmds ?s1"
    using settled assms(5) by (rule run_true_active)
  then have "cmds (run rt (fs @ p # ts) s) = ?before @ [?c]"
    by (simp add: run_append first)
  moreover have "from_loop ?before = from_loop (cmds s)"
    by (simp add: from_loop_run_timers quiet)
  moreover have "gain_sent ?c = MUSIC_GAIN_ACTIVE" "issued_by ?c = PollLoop" "issued_at ?c = ?t"
    by (simp_all add: active_command_def)
  ultimately show ?thesis
    by blast
qed

theorem active_command_on_first_true_reading_witness:
  "cmds (run (replies_after 0) [seen False 0, seen False 0, seen True 0, seen True 0, seen True 0] (loop_entry 0))
     = [\<lparr>issued_at = 300, gain_sent = MUSIC_GAIN_ACTIVE, issued_by = PollLoop, settles_at = Some 300\<rparr>]"
  using active_command_on_first_true_reading
    [of "loop_entry 0" "[seen False 0, seen False 0]" "seen True 0" "[seen True 0, seen True 0]" "replies_after 0"]
  by (simp add: loop_eval)

text \<open>A timer is armed only while \<open>camWasActive\<close> is false.\<close>

lemma poll_step_timer_inv:
  assumes "camWasActive s \<longrightarrow> stopTimer s = None"
  shows "camWasActive (poll_step rt p s) \<longrightarrow> stopTimer (poll_step rt p s) = None"
  using assms
  by (auto simp add: poll_step_def Let_def await_command_def issue_def run_timers_stopTimer
      split: option.splits)

lemma run_timer_inv:
  assumes "camWasActive s \<longrightarrow> stopTimer s = None"
  shows "camWasActive (run rt ps s) \<longrightarrow> stopTimer (run rt ps s) = None"
  using assms
proof (induction ps arbitrary: s)
  case Nil
  then show ?case by simp
next
  case (Cons p ps)
  then show ?case
    by (simp add: poll_step_timer_inv del: imp_disjL)
qed

lemma active_state_has_no_timer:
  "camWasActive (run rt ps (loop_entry t0)) \<Longrightarrow> stopTimer (run rt ps (loop_entry t0)) = None"
  using run_timer_inv [of "loop_entry t0" rt ps] by (simp add: loop_entry_def)

lemma armed_timer_means_inactive:
  "stopTimer (run rt ps (loop_entry t0)) = Some d \<Longrightarrow> \<not> camWasActive (run rt ps (loop_entry t0))"
  using active_state_has_no_timer [of rt ps t0] by auto

lemma poll_step_false_active:
  assumes "\<not> suspended s" "camWasActive s" "stopTimer s = None" "\<not> reading p"
  shows "poll_step rt p s = s\<lparr>stopTimer := Some (now s + probe_ms p + DEBOUNCE_MS), 
            camWasActive := False, now := now s + probe_ms p + CAM_POLL_MS\<rparr>"
  using assms by (cases s) (simp add: poll_step_def Let_def run_timers_idle)

lemma quiet_run_timers:
  assumes "\<not> suspended s" "\<not> camWasActive s" "\<forall>q\<in>set fs. \<not> reading q"
  shows "run_timers rt T (run rt fs s)
           = (run_timers rt (if fs = [] then T else max (now s + quiet_ms fs - CAM_POLL_MS) T) s)\<lparr>now := now s + quiet_ms fs\<rparr>"
proof (cases "fs = []")
  case True
  then show ?thesis by (simp add: quiet_ms_def)
next
  case False
  then show ?thesis
    using assms by (simp add: quiet_run run_timers_now run_timers_max)
qed

lemma quiet_run_now:
  assumes "\<not> suspended s" "\<not> camWasActive s" "\<forall>q\<in>set fs. \<not> reading q"
  shows "now (run rt fs s) = now s + quiet_ms fs"
  using assms by (cases "fs = []") (simp_all add: quiet_run quiet_ms_def)

lemma quiet_ms_ge: "fs \<noteq> [] \<Longrightarrow> CAM_POLL_MS \<le> quiet_ms fs"
  by (cases fs) (simp_all add: quiet_ms_def)

text \<open>
  C2: let the loop have reached the active state, and let the probe then return false.
  That reading issues no command; it arms the timer for \<open>DEBOUNCE_MS\<close> after the
  reading. If the readings that follow are all false, then up to any time \<open>T\<close> the
  trace has gained exactly the mute command, issued by the timer at its deadline, when
  the deadline has been reached (by \<open>T\<close> or by the last reading), and nothing when it
  has not. If instead a true reading arrives before the deadline, the timer is disarmed
  and the timer has issued no command.
\<close>

theorem mute_only_after_debounce:
  assumes "s = run rt ps (loop_entry t0)"
    and "camWasActive s" and "\<not> suspended s" and "\<not> reading p" and "\<forall>q\<in>set qs. \<not> reading q"
  shows "cmds (poll_step rt p s) = cmds s
     \<and> stopTimer (poll_step rt p s) = Some (now s + probe_ms p + DEBOUNCE_MS)
     \<and> cmds (run_timers rt T (run rt (p # qs) s)) =
         cmds s @ (if now s + probe_ms p + DEBOUNCE_MS \<le> max T (now (run rt (p # qs) s) - CAM_POLL_MS)
                   then [mute_command rt (length (cmds s)) (now s + probe_ms p + DEBOUNCE_MS)]
                   else [])
     \<and> (reading q \<and> now (run rt (p # qs) s) + probe_ms q < now s + probe_ms p + DEBOUNCE_MS \<longrightarrow>
          stopTimer (run rt (p # qs @ [q]) s) = None
          \<and> from_timer (cmds (run rt (p # qs @ [q]) s)) = from_timer (cmds s))"
proof -
  let ?t = "now s + probe_ms p"
  let ?d = "?t + DEBOUNCE_MS"
  let ?s1 = "poll_step rt p s"
  have idle: "stopTimer s = None"
    using assms(1,2) active_state_has_no_timer by simp
  have s1: "?s1 = s\<lparr>stopTimer := Some ?d, camWasActive := False, now := ?t + CAM_POLL_MS\<rparr>"
    using assms idle by (simp add: poll_step_false_active)
  have f1: "\<not> suspended ?s1" "\<not> camWasActive ?s1" "stopTimer ?s1 = Some ?d" "cmds ?s1 = cmds s"
    "now ?s1 = ?t + CAM_POLL_MS"
    using assms(3) by (simp_all add: s1)
  let ?s2 = "run rt qs ?s1"
  have now2: "now ?s2 = ?t + CAM_POLL_MS + quiet_ms qs"
    using f1 assms(5) by (simp add: quiet_run_now)
  have fired: "cmds (run_timers rt T ?s2) =
         cmds s @ (if ?d \<le> max T (now ?s2 - CAM_POLL_MS)
                   then [mute_command rt (length (cmds s)) ?d] else [])"
  proof (cases "qs = []")
    case True
    then show ?thesis
      by (simp add: run_timers_cmds f1 DEBOUNCE_MS_def max_def)
  next
    case False
    then show ?thesis
      using f1(1,2) assms(5)
      by (simp add: quiet_run_timers run_timers_cmds f1 now2 max.commute)
  qed
  have cancel: "stopTimer (run rt (qs @ [q]) ?s1) = None
          \<and> from_timer (cmds (run rt (qs @ [q]) ?s1)) = from_timer (cmds s)"
    if "reading q" and early: "now ?s2 + probe_ms q < ?d"
  proof -
    have q2: "\<not> suspended ?s2" "\<not> camWasActive ?s2"
      using f1 assms(5) by (simp_all add: quiet_run_fields)
    have quiet: "cmds (run_timers rt (now ?s2 + probe_ms q) ?s2) = cmds s"
      using f1(1,2) assms(5) early
      by (cases "qs = []") (simp_all add: quiet_run_timers run_timers_cmds f1 now2)
    have "cmds (poll_step rt q ?s2) = cmds s @ [active_command rt (length (cmds s)) (now ?s2 + probe_ms q)]"
      and "stopTimer (poll_step rt q ?s2) = None"
      using q2 that(1) poll_step_true_inactive [of ?s2 q rt] by (simp_all add: quiet)
    then show ?thesis
      by (simp add: run_append from_timer_def active_command_def)
  qed
  show ?thesis
    using f1 fired cancel by (simp add: run_append)
qed

theorem mute_only_after_debounce_witness:
  "cmds (run (replies_after 0) [seen True 0, seen True 0, seen False 0] (loop_entry 0))
     = [active_command (replies_after 0) 0 0]
   \<and> stopTimer (run (replies_after 0) [seen True 0, seen True 0, seen False 0] (loop_entry 0)) = Some 600
   \<and> cmds (run (replies_after 0) [seen True 0, seen True 0, seen False 0, seen False 0] (loop_entry 0))
     = [active_command (replies_after 0) 0 0]
   \<and> cmds (run (replies_after 0)
        [seen True 0, seen True 0, seen False 0, seen False 0, seen False 0, seen False 0] (loop_entry 0))
     = [active_command (replies_after 0) 0 0, mute_command (replies_after 0) 1 600]"
  using mute_only_after_debounce
    [of "run (replies_after 0) [seen True 0, seen True 0] (loop_entry 0)" "replies_after 0"
      "[seen True 0, seen True 0]" 0 "seen False 0" "[seen False 0, seen False 0, seen False 0]" 0 "seen True 0"]
  by (simp add: loop_eval active_command_def mute_command_def)

text \<open>
  C3, as amended: in any state the loop can reach with the timer armed, a true reading
  that arrives before the deadline disarms the timer, and no mute command comes from it,
  however much time passes afterwards. The reading itself is handled as a transition to
  active: the loop issues the active command again.
\<close>

theorem true_reading_cancels_pending_mute:
  assumes "s = run rt ps (loop_entry t0)"
    and "\<not> suspended s" and "stopTimer s = Some d" and "reading p" and "now s + probe_ms p < d"
  shows "stopTimer (poll_step rt p s) = None
     \<and> cmds (poll_step rt p s) = cmds s @ [active_command rt (length (cmds s)) (now s + probe_ms p)]
     \<and> cmds (run_timers rt T (poll_step rt p s)) = cmds (poll_step rt p s)"
proof -
  have inactive: "\<not> camWasActive s"
    using assms(1,3) armed_timer_means_inactive by simp
  have waiting: "cmds (run_timers rt (now s + probe_ms p) s) = cmds s"
    using assms(3,5) by (simp add: run_timers_cmds)
  have "stopTimer (poll_step rt p s) = None"
    and "cmds (poll_step rt p s) = cmds s @ [active_command rt (length (cmds s)) (now s + probe_ms p)]"
    using assms(2,4) inactive poll_step_true_inactive [of s p rt] by (simp_all add: waiting)
  then show ?thesis
    by (simp add: run_timers_idle)
qed

theorem true_reading_cancels_pending_mute_witness:
  "stopTimer (run (replies_after 0) [seen True 0, seen False 0] (loop_entry 0)) = Some 450
   \<and> stopTimer (run (replies_after 0) [seen True 0, seen False 0, seen True 0] (loop_entry 0)) = None
   \<and> from_timer (cmds (run_timers (replies_after 0) 1000
        (run (replies_after 0) [seen True 0, seen False 0, seen True 0] (loop_entry 0)))) = []"
  using true_reading_cancels_pending_mute
    [of "run (replies_after 0) [seen True 0, seen False 0] (loop_entry 0)" "replies_after 0"
      "[seen True 0, seen False 0]" 0 450 "seen True 0" 1000]
  by (simp add: loop_eval from_timer_def active_command_def)

text \<open>
  The claim as stated fails on the readings true, false, true, with polls 150 ms apart and
  the window of 300 ms: the timer armed by the false reading is cancelled, and the third
  reading issues a second active command.
\<close>

theorem cancelled_mute_reissues_active_counterexample:
  "stopTimer (run (replies_after 0) [seen True 0, seen False 0] (loop_entry 0)) = Some 450
   \<and> cmds (run (replies_after 0) [seen True 0, seen False 0] (loop_entry 0))
     = [active_command (replies_after 0) 0 0]
   \<and> cmds (run (replies_after 0) [seen True 0, seen False 0, seen True 0] (loop_entry 0))
     = [active_command (replies_after 0) 0 0, active_command (replies_after 0) 1 300]"
  by (simp add: loop_eval active_command_def)












end
